theory Spec2Isabelle
  imports Complex_Main "HOL-Library.Monad_Syntax"
begin

section \<open>Data model of \<^verbatim>\<open>scriptsizefsm.hpp\<close>\<close>

text \<open>
  An FSM object lives at an address; the private member \<^verbatim>\<open>this_\<close> of the source is a
  pointer to such an object and is kept as a field, since every callback of a state is
  invoked on \<^verbatim>\<open>this_\<close> and not on the receiver.
\<close>

type_synonym addr = nat

text \<open>
  \<^verbatim>\<open>_state_instance<T_State>::value\<close> is the one static object of the state type
  \<^verbatim>\<open>T_State\<close>. Distinct static objects have distinct addresses, so the address of that
  object is represented by the tag of its type: \<open>'s\<close> is the type of those tags, one
  tag for each state class of the FSM type.
\<close>

definition state_instance :: "'s \<Rightarrow> 's" where
  "state_instance T_State = T_State"

text \<open>
  The members of \<^verbatim>\<open>class FSM<T_FSM_Child, T_State_Generic>\<close>, followed by \<open>child\<close>:
  the members that the concrete class \<^verbatim>\<open>T_FSM_Child\<close> adds to its base. A member
  that the source writes with a trailing underscore carries the suffix \<open>_m\<close> here.
\<close>

record ('s, 'u) FSM =
  this_m :: addr
  init_state_m :: 's
  current_state_m :: 's
  child :: 'u

text \<open>
  Ghost instrumentation, absent from the source: each virtual call that the engine makes
  and each assignment to \<^verbatim>\<open>current_state_\<close> is appended to a log, with the state object
  the call dispatches on and the FSM pointer it passes.
\<close>

datatype ('s, 'e) call =
    Call_exit 's addr
  | Assign_current addr 's
  | Call_resetter addr
  | Call_entry 's addr
  | Call_react 's 'e addr

record ('s, 'e, 'u) world =
  heap :: "addr \<rightharpoonup> ('s, 'u) FSM"
  calls :: "('s, 'e) call list"

definition empty_world :: "('s, 'e, 'u) world" where
  "empty_world = \<lparr>heap = Map.empty, calls = []\<rparr>"

definition logged :: "('s, 'e) call \<Rightarrow> ('s, 'e, 'u) world \<Rightarrow> ('s, 'e, 'u) world" where
  "logged c w = w\<lparr>calls := calls w @ [c]\<rparr>"

section \<open>Code supplied by the consumer\<close>

text \<open>
  The bodies of \<^verbatim>\<open>entry\<close>, \<^verbatim>\<open>exit\<close> and \<^verbatim>\<open>resetter\<close> receive the FSM object and
  return the new values of the members the child class owns: \<^verbatim>\<open>current_state_\<close>,
  \<^verbatim>\<open>init_state_\<close> and \<^verbatim>\<open>this_\<close> are private to the base class. The body of a
  \<^verbatim>\<open>react\<close> override is a program that assigns to those members, branches on the
  object and calls the helper \<^verbatim>\<open>State::transit<T_State>(fsm)\<close>, which the source
  documents as the place where transitions are implemented. Bodies of \<^verbatim>\<open>entry\<close>,
  \<^verbatim>\<open>exit\<close> and \<^verbatim>\<open>resetter\<close> that call back into the engine, and bodies of \<^verbatim>\<open>react\<close>
  that call \<^verbatim>\<open>react\<close> or \<^verbatim>\<open>reset\<close>, are outside this model.
\<close>

datatype ('s, 'u) prog =
    Skip
  | Do_assign "('s, 'u) FSM \<Rightarrow> 'u" "('s, 'u) prog"
  | Do_transit 's "('s, 'u) prog"
  | Cond "('s, 'u) FSM \<Rightarrow> bool" "('s, 'u) prog" "('s, 'u) prog"

record ('s, 'e, 'a, 'u) consumer =
  ctor :: "'a \<Rightarrow> 'u"
  state_entry :: "'s \<Rightarrow> ('s, 'u) FSM \<Rightarrow> 'u"
  state_exit :: "'s \<Rightarrow> ('s, 'u) FSM \<Rightarrow> 'u"
  state_react :: "'s \<Rightarrow> 'e \<Rightarrow> ('s, 'u) prog"
  resetter :: "('s, 'u) FSM \<Rightarrow> 'u"

text \<open>The defaults of the library: every virtual member has an empty body.\<close>

definition State_entry :: "('s, 'u) FSM \<Rightarrow> 'u" where
  "State_entry fsm = child fsm"

definition State_exit :: "('s, 'u) FSM \<Rightarrow> 'u" where
  "State_exit fsm = child fsm"

definition State_react :: "('s, 'u) prog" where
  "State_react = Skip"

definition FSM_resetter :: "('s, 'u) FSM \<Rightarrow> 'u" where
  "FSM_resetter fsm = child fsm"

section \<open>The engine\<close>

text \<open>
  Running a member-only body on the object a pointer refers to. Dereferencing a pointer
  that refers to no FSM object has no defined behaviour in the source; it is \<open>None\<close>.
\<close>

definition on_object ::
  "addr \<Rightarrow> (('s, 'u) FSM \<Rightarrow> 'u) \<Rightarrow> ('s, 'e, 'u) world \<Rightarrow> ('s, 'e, 'u) world option" where
  "on_object p body w =
     (case heap w p of
        None \<Rightarrow> None
      | Some obj \<Rightarrow> Some (w\<lparr>heap := (heap w)(p \<mapsto> obj\<lparr>child := body obj\<rparr>)\<rparr>))"

text \<open>\<^verbatim>\<open>current_state_->exit(this_)\<close> and \<^verbatim>\<open>current_state_->entry(this_)\<close>, for the receiver \<open>a\<close>.\<close>

definition call_exit ::
  "('s, 'e, 'a, 'u) consumer \<Rightarrow> addr \<Rightarrow> ('s, 'e, 'u) world \<Rightarrow> ('s, 'e, 'u) world option" where
  "call_exit c a w =
     do { fsm \<leftarrow> heap w a;
          on_object (this_m fsm) (state_exit c (current_state_m fsm))
            (logged (Call_exit (current_state_m fsm) (this_m fsm)) w) }"

definition call_entry ::
  "('s, 'e, 'a, 'u) consumer \<Rightarrow> addr \<Rightarrow> ('s, 'e, 'u) world \<Rightarrow> ('s, 'e, 'u) world option" where
  "call_entry c a w =
     do { fsm \<leftarrow> heap w a;
          on_object (this_m fsm) (state_entry c (current_state_m fsm))
            (logged (Call_entry (current_state_m fsm) (this_m fsm)) w) }"

text \<open>The assignment \<^verbatim>\<open>current_state_ = s\<close> in the receiver \<open>a\<close>.\<close>

definition assign_current ::
  "addr \<Rightarrow> 's \<Rightarrow> ('s, 'e, 'u) world \<Rightarrow> ('s, 'e, 'u) world option" where
  "assign_current a s w =
     do { fsm \<leftarrow> heap w a;
          Some (logged (Assign_current a s) (w\<lparr>heap := (heap w)(a \<mapsto> fsm\<lparr>current_state_m := s\<rparr>)\<rparr>)) }"

text \<open>\<^verbatim>\<open>FSM::transit<T_State>()\<close>.\<close>

definition FSM_transit ::
  "('s, 'e, 'a, 'u) consumer \<Rightarrow> 's \<Rightarrow> addr \<Rightarrow> ('s, 'e, 'u) world \<Rightarrow> ('s, 'e, 'u) world option" where
  "FSM_transit c T_State a w =
     do { w1 \<leftarrow> call_exit c a w;
          w2 \<leftarrow> assign_current a (state_instance T_State) w1;
          call_entry c a w2 }"

text \<open>\<^verbatim>\<open>State::transit<T_State>(fsm)\<close>: \<^verbatim>\<open>fsm->template transit<T_State>()\<close>.\<close>

definition State_transit ::
  "('s, 'e, 'a, 'u) consumer \<Rightarrow> 's \<Rightarrow> addr \<Rightarrow> ('s, 'e, 'u) world \<Rightarrow> ('s, 'e, 'u) world option" where
  "State_transit c T_State fsm w = FSM_transit c T_State fsm w"

text \<open>Running the body of a \<^verbatim>\<open>react\<close> override on the pointer \<open>fsm\<close> it was given.\<close>

fun run ::
  "('s, 'e, 'a, 'u) consumer \<Rightarrow> ('s, 'u) prog \<Rightarrow> addr \<Rightarrow> ('s, 'e, 'u) world \<Rightarrow> ('s, 'e, 'u) world option" where
  "run c Skip fsm w = Some w"
| "run c (Do_assign body k) fsm w = do { w1 \<leftarrow> on_object fsm body w; run c k fsm w1 }"
| "run c (Do_transit T_State k) fsm w = do { w1 \<leftarrow> State_transit c T_State fsm w; run c k fsm w1 }"
| "run c (Cond b k1 k2) fsm w =
     do { obj \<leftarrow> heap w fsm; if b obj then run c k1 fsm w else run c k2 fsm w }"

text \<open>\<^verbatim>\<open>FSM::react(const T_Event& event)\<close>: \<^verbatim>\<open>current_state_->react(this_, event)\<close>.\<close>

definition FSM_react ::
  "('s, 'e, 'a, 'u) consumer \<Rightarrow> 'e \<Rightarrow> addr \<Rightarrow> ('s, 'e, 'u) world \<Rightarrow> ('s, 'e, 'u) world option" where
  "FSM_react c event a w =
     do { fsm \<leftarrow> heap w a;
          run c (state_react c (current_state_m fsm) event) (this_m fsm)
            (logged (Call_react (current_state_m fsm) event (this_m fsm)) w) }"

text \<open>\<^verbatim>\<open>FSM::reset()\<close>. The hook \<^verbatim>\<open>resetter()\<close> is called on the receiver itself.\<close>

definition call_resetter ::
  "('s, 'e, 'a, 'u) consumer \<Rightarrow> addr \<Rightarrow> ('s, 'e, 'u) world \<Rightarrow> ('s, 'e, 'u) world option" where
  "call_resetter c a w = on_object a (resetter c) (logged (Call_resetter a) w)"

definition FSM_reset ::
  "('s, 'e, 'a, 'u) consumer \<Rightarrow> addr \<Rightarrow> ('s, 'e, 'u) world \<Rightarrow> ('s, 'e, 'u) world option" where
  "FSM_reset c a w =
     do { w1 \<leftarrow> call_exit c a w;
          fsm \<leftarrow> heap w1 a;
          w2 \<leftarrow> assign_current a (init_state_m fsm) w1;
          w3 \<leftarrow> call_resetter c a w2;
          call_entry c a w3 }"

text \<open>\<^verbatim>\<open>FSM::is_in_state<T_State>() const\<close>: a comparison of two pointers.\<close>

definition FSM_is_in_state :: "'s \<Rightarrow> addr \<Rightarrow> ('s, 'e, 'u) world \<Rightarrow> bool option" where
  "FSM_is_in_state T_State a w =
     do { fsm \<leftarrow> heap w a; Some (current_state_m fsm = state_instance T_State) }"

text \<open>
  The constructor \<^verbatim>\<open>FSM(const T_State_Generic* const init_state)\<close> of the base class, for
  an object under construction at address \<open>a\<close>; the constructor of the child class
  passes its first argument on to it and initialises its own members \<open>u\<close>.
\<close>

definition FSM_ctor :: "'s \<Rightarrow> addr \<Rightarrow> 'u \<Rightarrow> ('s, 'u) FSM" where
  "FSM_ctor init_state a u =
     \<lparr>this_m = a, init_state_m = init_state, current_state_m = init_state, child = u\<rparr>"

text \<open>
  \<^verbatim>\<open>FSM::start<T_State_Init>(args...)\<close> returns a prvalue, which initialises the caller's
  variable in place: \<open>a\<close> is the address of that variable.
\<close>

definition FSM_start ::
  "('s, 'e, 'a, 'u) consumer \<Rightarrow> 's \<Rightarrow> 'a \<Rightarrow> addr \<Rightarrow> ('s, 'e, 'u) world \<Rightarrow> ('s, 'e, 'u) world" where
  "FSM_start c T_State_Init args a w =
     w\<lparr>heap := (heap w)(a \<mapsto> FSM_ctor (state_instance T_State_Init) a (ctor c args))\<rparr>"

text \<open>The free function \<^verbatim>\<open>start<T_FSM, T_State_Init>(args...)\<close>.\<close>

definition start ::
  "('s, 'e, 'a, 'u) consumer \<Rightarrow> 's \<Rightarrow> 'a \<Rightarrow> addr \<Rightarrow> ('s, 'e, 'u) world \<Rightarrow> ('s, 'e, 'u) world" where
  "start c T_State_Init args a w = FSM_start c T_State_Init args a w"

section \<open>The consumer of \<^verbatim>\<open>tests/extended_switch.cpp\<close>\<close>

text \<open>
  The members of type \<^verbatim>\<open>double\<close> are only stored, copied and compared, never computed
  with; they are modelled as reals.
\<close>

datatype xs_state = GenericState | OnState | OffState

datatype xs_event = OnEvent real | OffEvent

record xs_members =
  initial_current_m :: real
  current_m :: real

type_synonym xs_fsm = "(xs_state, xs_members) FSM"

definition getCurrent :: "xs_fsm \<Rightarrow> real" where
  "getCurrent fsm = current_m (child fsm)"

definition setCurrent :: "real \<Rightarrow> xs_fsm \<Rightarrow> xs_members" where
  "setCurrent current fsm = (child fsm)\<lparr>current_m := current\<rparr>"

text \<open>\<^verbatim>\<open>FSM(const GenericState* const init_state, double current)\<close>, the members it adds.\<close>

definition xs_FSM_ctor :: "real \<Rightarrow> xs_members" where
  "xs_FSM_ctor current = \<lparr>initial_current_m = current, current_m = current\<rparr>"

definition xs_FSM_resetter :: "xs_fsm \<Rightarrow> xs_members" where
  "xs_FSM_resetter fsm = setCurrent (initial_current_m (child fsm)) fsm"

definition GenericState_entry :: "xs_fsm \<Rightarrow> xs_members" where
  "GenericState_entry fsm = child fsm"

definition GenericState_react :: "xs_event \<Rightarrow> (xs_state, xs_members) prog" where
  "GenericState_react event = Skip"

fun OnState_react :: "xs_event \<Rightarrow> (xs_state, xs_members) prog" where
  "OnState_react (OnEvent c) = Do_assign (setCurrent c) Skip"
| "OnState_react OffEvent = Do_transit OffState Skip"

definition OffState_entry :: "xs_fsm \<Rightarrow> xs_members" where
  "OffState_entry fsm = setCurrent 0 fsm"

text \<open>\<^verbatim>\<open>OffState\<close> overrides the reaction to \<^verbatim>\<open>OnEvent\<close> only.\<close>

fun OffState_react :: "xs_event \<Rightarrow> (xs_state, xs_members) prog" where
  "OffState_react (OnEvent c) = Do_assign (setCurrent c) (Do_transit OnState Skip)"
| "OffState_react OffEvent = GenericState_react OffEvent"

text \<open>The virtual tables: which body a call on an object of each state class reaches.\<close>

fun xs_entry :: "xs_state \<Rightarrow> xs_fsm \<Rightarrow> xs_members" where
  "xs_entry GenericState = GenericState_entry"
| "xs_entry OnState = GenericState_entry"
| "xs_entry OffState = OffState_entry"

fun xs_react :: "xs_state \<Rightarrow> xs_event \<Rightarrow> (xs_state, xs_members) prog" where
  "xs_react GenericState = GenericState_react"
| "xs_react OnState = OnState_react"
| "xs_react OffState = OffState_react"

definition extended_switch :: "(xs_state, xs_event, real, xs_members) consumer" where
  "extended_switch =
     \<lparr>ctor = xs_FSM_ctor, state_entry = xs_entry, state_exit = (\<lambda>s. State_exit),
      state_react = xs_react, resetter = xs_FSM_resetter\<rparr>"

section \<open>The consumer of \<^verbatim>\<open>tests/multiple_instances.cpp\<close>\<close>

datatype mi_state = MI_GenericState | MI_OnState | MI_OffState

datatype mi_event = MI_OnEvent | MI_OffEvent

text \<open>
  \<^verbatim>\<open>GenericState\<close> declares an empty reaction to each event; \<^verbatim>\<open>OnState\<close> overrides
  the one to \<^verbatim>\<open>OffEvent\<close>, \<^verbatim>\<open>OffState\<close> the one to \<^verbatim>\<open>OnEvent\<close>. The FSM class adds no
  member and its constructor takes no further argument.
\<close>

definition MI_GenericState_react :: "mi_event \<Rightarrow> (mi_state, unit) prog" where
  "MI_GenericState_react event = Skip"

fun mi_react :: "mi_state \<Rightarrow> mi_event \<Rightarrow> (mi_state, unit) prog" where
  "mi_react MI_OnState MI_OffEvent = Do_transit MI_OffState Skip"
| "mi_react MI_OffState MI_OnEvent = Do_transit MI_OnState Skip"
| "mi_react s event = MI_GenericState_react event"

definition multiple_instances :: "(mi_state, mi_event, unit, unit) consumer" where
  "multiple_instances =
     \<lparr>ctor = (\<lambda>args. ()), state_entry = (\<lambda>s. State_entry), state_exit = (\<lambda>s. State_exit),
      state_react = mi_react, resetter = FSM_resetter\<rparr>"

section \<open>Driving instances\<close>

text \<open>The calls a caller or a state can make on an instance, and a sequence of them.\<close>

datatype ('s, 'e) op = React 'e | Transit 's | Reset

fun apply_op ::
  "('s, 'e, 'a, 'u) consumer \<Rightarrow> ('s, 'e) op \<Rightarrow> addr \<Rightarrow> ('s, 'e, 'u) world \<Rightarrow> ('s, 'e, 'u) world option" where
  "apply_op c (React event) a w = FSM_react c event a w"
| "apply_op c (Transit T_State) a w = FSM_transit c T_State a w"
| "apply_op c Reset a w = FSM_reset c a w"

fun drive ::
  "('s, 'e, 'a, 'u) consumer \<Rightarrow> (addr \<times> ('s, 'e) op) list \<Rightarrow> ('s, 'e, 'u) world \<Rightarrow> ('s, 'e, 'u) world option" where
  "drive c [] w = Some w"
| "drive c ((a, x) # xs) w = do { w1 \<leftarrow> apply_op c x a w; drive c xs w1 }"

section \<open>Derived notions used in the statements\<close>

text \<open>
  What \<^verbatim>\<open>transit<T_State>()\<close> and \<^verbatim>\<open>reset()\<close> make of an object whose \<^verbatim>\<open>this_\<close> points
  to itself, read off the two function bodies statement by statement; the lemmas
  \<open>FSM_transit_self\<close> and \<open>FSM_reset_self\<close> prove that the engine computes them.
\<close>

definition transit_object :: "('s, 'e, 'a, 'u) consumer \<Rightarrow> 's \<Rightarrow> ('s, 'u) FSM \<Rightarrow> ('s, 'u) FSM" where
  "transit_object c T m =
     m\<lparr>current_state_m := state_instance T,
       child := state_entry c (state_instance T)
                  (m\<lparr>child := state_exit c (current_state_m m) m,
                     current_state_m := state_instance T\<rparr>)\<rparr>"

definition reset_object :: "('s, 'e, 'a, 'u) consumer \<Rightarrow> ('s, 'u) FSM \<Rightarrow> ('s, 'u) FSM" where
  "reset_object c m =
    (let m1 = m\<lparr>child := state_exit c (current_state_m m) m\<rparr>;
         m2 = m1\<lparr>current_state_m := init_state_m m1\<rparr>;
         m3 = m2\<lparr>child := resetter c m2\<rparr>
     in m3\<lparr>child := state_entry c (current_state_m m3) m3\<rparr>)"

text \<open>
  What the body of a \<^verbatim>\<open>react\<close> override makes of such an object, and the calls of the
  engine that it causes, statement by statement of the body; the lemma \<open>run_body\<close> proves
  that the engine computes them.
\<close>

fun body_result :: "('s, 'e, 'a, 'u) consumer \<Rightarrow> ('s, 'u) prog \<Rightarrow> ('s, 'u) FSM \<Rightarrow> ('s, 'u) FSM" where
  "body_result c Skip m = m"
| "body_result c (Do_assign body k) m = body_result c k (m\<lparr>child := body m\<rparr>)"
| "body_result c (Do_transit T k) m = body_result c k (transit_object c T m)"
| "body_result c (Cond b k1 k2) m = (if b m then body_result c k1 m else body_result c k2 m)"

fun body_calls :: "('s, 'e, 'a, 'u) consumer \<Rightarrow> ('s, 'u) prog \<Rightarrow> addr \<Rightarrow> ('s, 'u) FSM \<Rightarrow> ('s, 'e) call list" where
  "body_calls c Skip a m = []"
| "body_calls c (Do_assign body k) a m = body_calls c k a (m\<lparr>child := body m\<rparr>)"
| "body_calls c (Do_transit T k) a m =
     [Call_exit (current_state_m m) a, Assign_current a (state_instance T),
      Call_entry (state_instance T) a] @ body_calls c k a (transit_object c T m)"
| "body_calls c (Cond b k1 k2) a m = (if b m then body_calls c k1 a m else body_calls c k2 a m)"

text \<open>The log entries that record a call of \<^verbatim>\<open>react\<close> on a state.\<close>

fun is_react_call :: "('s, 'e) call \<Rightarrow> bool" where
  "is_react_call (Call_react s event fsm) = True"
| "is_react_call x = False"

section \<open>The engine on an object that points to itself\<close>

lemma on_object_self:
  "heap w p = Some obj \<Longrightarrow>
   on_object p body w = Some (w\<lparr>heap := (heap w)(p \<mapsto> obj\<lparr>child := body obj\<rparr>)\<rparr>)"
  by (simp add: on_object_def)

lemma call_exit_self:
  assumes "heap w a = Some m" and "this_m m = a"
  shows "call_exit c a w =
    Some (w\<lparr>heap := (heap w)(a \<mapsto> m\<lparr>child := state_exit c (current_state_m m) m\<rparr>),
            calls := calls w @ [Call_exit (current_state_m m) a]\<rparr>)"
  using assms by (simp add: call_exit_def on_object_def logged_def)

lemma call_entry_self:
  assumes "heap w a = Some m" and "this_m m = a"
  shows "call_entry c a w =
    Some (w\<lparr>heap := (heap w)(a \<mapsto> m\<lparr>child := state_entry c (current_state_m m) m\<rparr>),
            calls := calls w @ [Call_entry (current_state_m m) a]\<rparr>)"
  using assms by (simp add: call_entry_def on_object_def logged_def)

lemma assign_current_self:
  assumes "heap w a = Some m"
  shows "assign_current a s w =
    Some (w\<lparr>heap := (heap w)(a \<mapsto> m\<lparr>current_state_m := s\<rparr>),
            calls := calls w @ [Assign_current a s]\<rparr>)"
  using assms by (simp add: assign_current_def logged_def)

lemma call_resetter_self:
  assumes "heap w a = Some m"
  shows "call_resetter c a w =
    Some (w\<lparr>heap := (heap w)(a \<mapsto> m\<lparr>child := resetter c m\<rparr>),
            calls := calls w @ [Call_resetter a]\<rparr>)"
  using assms by (simp add: call_resetter_def on_object_def logged_def)

lemma FSM_transit_self:
  assumes "heap w a = Some m" and "this_m m = a"
  shows "FSM_transit c T a w =
    Some (w\<lparr>heap := (heap w)(a \<mapsto> transit_object c T m),
            calls := calls w @ [Call_exit (current_state_m m) a,
                                Assign_current a (state_instance T),
                                Call_entry (state_instance T) a]\<rparr>)"
  using assms
  by (simp add: FSM_transit_def call_exit_self assign_current_self call_entry_self transit_object_def)

lemma FSM_reset_self:
  assumes "heap w a = Some m" and "this_m m = a"
  shows "FSM_reset c a w =
    Some (w\<lparr>heap := (heap w)(a \<mapsto> reset_object c m),
            calls := calls w @ [Call_exit (current_state_m m) a,
                                Assign_current a (init_state_m m),
                                Call_resetter a,
                                Call_entry (init_state_m m) a]\<rparr>)"
  using assms
  by (simp add: FSM_reset_def call_exit_self assign_current_self call_entry_self
                call_resetter_self reset_object_def Let_def)

lemma transit_object_sel [simp]:
  "this_m (transit_object c T m) = this_m m"
  "init_state_m (transit_object c T m) = init_state_m m"
  "current_state_m (transit_object c T m) = state_instance T"
  by (simp_all add: transit_object_def)

lemma reset_object_sel [simp]:
  "this_m (reset_object c m) = this_m m"
  "init_state_m (reset_object c m) = init_state_m m"
  "current_state_m (reset_object c m) = init_state_m m"
  by (simp_all add: reset_object_def Let_def)

lemma run_self:
  assumes "this_m m = a"
  shows "\<exists>m' cs. this_m m' = a \<and> init_state_m m' = init_state_m m \<and>
            filter is_react_call cs = [] \<and>
            (\<forall>w. heap w a = Some m \<longrightarrow>
               run c k a (w :: ('s, 'e, 'u) world) =
                 Some (w\<lparr>heap := (heap w)(a \<mapsto> m'), calls := calls w @ cs\<rparr>))"
  using assms
proof (induction k arbitrary: m)
  case Skip
  have "\<forall>w. heap w a = Some m \<longrightarrow>
          run c Skip a (w :: ('s, 'e, 'u) world) = Some (w\<lparr>heap := (heap w)(a \<mapsto> m), calls := calls w @ []\<rparr>)"
    by (auto simp: map_upd_triv)
  moreover have "filter is_react_call ([] :: ('s, 'e) call list) = []" by simp
  ultimately show ?case using Skip by blast
next
  case (Do_assign body k)
  let ?m1 = "m\<lparr>child := body m\<rparr>"
  from Do_assign.prems have "this_m ?m1 = a" by simp
  from Do_assign.IH[OF this] obtain m' cs where
    k: "this_m m' = a" "init_state_m m' = init_state_m ?m1" "filter is_react_call cs = []"
       "\<And>w. heap w a = Some ?m1 \<Longrightarrow>
          run c k a (w :: ('s, 'e, 'u) world) = Some (w\<lparr>heap := (heap w)(a \<mapsto> m'), calls := calls w @ cs\<rparr>)"
    by blast
  have "\<forall>w. heap w a = Some m \<longrightarrow>
          run c (Do_assign body k) a (w :: ('s, 'e, 'u) world) =
            Some (w\<lparr>heap := (heap w)(a \<mapsto> m'), calls := calls w @ cs\<rparr>)"
    by (simp add: on_object_self k(4))
  moreover have "init_state_m m' = init_state_m m" using k(2) by simp
  ultimately show ?case using k(1,3) by blast
next
  case (Do_transit T k)
  let ?m1 = "transit_object c T m"
  let ?cs1 = "[Call_exit (current_state_m m) a, Assign_current a (state_instance T),
               Call_entry (state_instance T) a]"
  from Do_transit.prems have "this_m ?m1 = a" by simp
  from Do_transit.IH[OF this] obtain m' cs where
    k: "this_m m' = a" "init_state_m m' = init_state_m ?m1" "filter is_react_call cs = []"
       "\<And>w. heap w a = Some ?m1 \<Longrightarrow>
          run c k a (w :: ('s, 'e, 'u) world) = Some (w\<lparr>heap := (heap w)(a \<mapsto> m'), calls := calls w @ cs\<rparr>)"
    by blast
  have "\<forall>w. heap w a = Some m \<longrightarrow>
          run c (Do_transit T k) a (w :: ('s, 'e, 'u) world) =
            Some (w\<lparr>heap := (heap w)(a \<mapsto> m'), calls := calls w @ (?cs1 @ cs)\<rparr>)"
    using Do_transit.prems by (simp add: State_transit_def FSM_transit_self k(4))
  moreover have "init_state_m m' = init_state_m m" using k(2) by simp
  moreover have "filter is_react_call (?cs1 @ cs) = []" using k(3) by simp
  ultimately show ?case using k(1) by blast
next
  case (Cond b k1 k2)
  show ?case
  proof (cases "b m")
    case True
    from Cond.IH(1)[OF Cond.prems] obtain m' cs where
      k: "this_m m' = a" "init_state_m m' = init_state_m m" "filter is_react_call cs = []"
         "\<And>w. heap w a = Some m \<Longrightarrow>
            run c k1 a (w :: ('s, 'e, 'u) world) = Some (w\<lparr>heap := (heap w)(a \<mapsto> m'), calls := calls w @ cs\<rparr>)"
      by blast
    have "\<forall>w. heap w a = Some m \<longrightarrow>
            run c (Cond b k1 k2) a (w :: ('s, 'e, 'u) world) =
              Some (w\<lparr>heap := (heap w)(a \<mapsto> m'), calls := calls w @ cs\<rparr>)"
      using True by (simp add: k(4))
    with k(1-3) show ?thesis by blast
  next
    case False
    from Cond.IH(2)[OF Cond.prems] obtain m' cs where
      k: "this_m m' = a" "init_state_m m' = init_state_m m" "filter is_react_call cs = []"
         "\<And>w. heap w a = Some m \<Longrightarrow>
            run c k2 a (w :: ('s, 'e, 'u) world) = Some (w\<lparr>heap := (heap w)(a \<mapsto> m'), calls := calls w @ cs\<rparr>)"
      by blast
    have "\<forall>w. heap w a = Some m \<longrightarrow>
            run c (Cond b k1 k2) a (w :: ('s, 'e, 'u) world) =
              Some (w\<lparr>heap := (heap w)(a \<mapsto> m'), calls := calls w @ cs\<rparr>)"
      using False by (simp add: k(4))
    with k(1-3) show ?thesis by blast
  qed
qed

lemma FSM_react_self:
  assumes "this_m m = a"
  shows "\<exists>m' cs. this_m m' = a \<and> init_state_m m' = init_state_m m \<and>
            filter is_react_call cs = [] \<and>
            (\<forall>w. heap w a = Some m \<longrightarrow>
               FSM_react c event a (w :: ('s, 'e, 'u) world) =
                 Some (w\<lparr>heap := (heap w)(a \<mapsto> m'),
                         calls := calls w @ Call_react (current_state_m m) event a # cs\<rparr>))"
proof -
  from run_self[OF assms, of c "state_react c (current_state_m m) event"] obtain m' cs where
    k: "this_m m' = a" "init_state_m m' = init_state_m m" "filter is_react_call cs = []"
       "\<And>w. heap w a = Some m \<Longrightarrow>
          run c (state_react c (current_state_m m) event) a (w :: ('s, 'e, 'u) world) =
            Some (w\<lparr>heap := (heap w)(a \<mapsto> m'), calls := calls w @ cs\<rparr>)"
    by blast
  have "\<forall>w. heap w a = Some m \<longrightarrow>
          FSM_react c event a (w :: ('s, 'e, 'u) world) =
            Some (w\<lparr>heap := (heap w)(a \<mapsto> m'),
                    calls := calls w @ Call_react (current_state_m m) event a # cs\<rparr>)"
    using assms by (simp add: FSM_react_def logged_def k(4))
  with k(1-3) show ?thesis by blast
qed

lemma apply_op_self:
  assumes "this_m m = a"
  shows "\<exists>m' cs. this_m m' = a \<and> init_state_m m' = init_state_m m \<and>
            (\<forall>w. heap w a = Some m \<longrightarrow>
               apply_op c x a (w :: ('s, 'e, 'u) world) =
                 Some (w\<lparr>heap := (heap w)(a \<mapsto> m'), calls := calls w @ cs\<rparr>))"
proof (cases x)
  case (React event)
  from FSM_react_self[OF assms, of c event] show ?thesis
    unfolding React apply_op.simps by blast
next
  case (Transit T)
  have "\<forall>w. heap w a = Some m \<longrightarrow>
          apply_op c x a (w :: ('s, 'e, 'u) world) =
            Some (w\<lparr>heap := (heap w)(a \<mapsto> transit_object c T m),
                    calls := calls w @ [Call_exit (current_state_m m) a,
                                        Assign_current a (state_instance T),
                                        Call_entry (state_instance T) a]\<rparr>)"
    using assms by (simp add: Transit FSM_transit_self)
  moreover have "this_m (transit_object c T m) = a" "init_state_m (transit_object c T m) = init_state_m m"
    using assms by simp_all
  ultimately show ?thesis by blast
next
  case Reset
  have "\<forall>w. heap w a = Some m \<longrightarrow>
          apply_op c x a (w :: ('s, 'e, 'u) world) =
            Some (w\<lparr>heap := (heap w)(a \<mapsto> reset_object c m),
                    calls := calls w @ [Call_exit (current_state_m m) a,
                                        Assign_current a (init_state_m m),
                                        Call_resetter a,
                                        Call_entry (init_state_m m) a]\<rparr>)"
    using assms by (simp add: Reset FSM_reset_self)
  moreover have "this_m (reset_object c m) = a" "init_state_m (reset_object c m) = init_state_m m"
    using assms by simp_all
  ultimately show ?thesis by blast
qed

lemma drive_isolated:
  assumes "\<forall>x \<in> fst ` set ops. \<exists>mx. heap w x = Some mx \<and> this_m mx = x"
      and "heap w a = Some m" and "heap v a = Some m" and "this_m m = a"
  shows "\<exists>w' v'. drive c ops (w :: ('s, 'e, 'u) world) = Some w' \<and>
           drive c (filter (\<lambda>p. fst p = a) ops) (v :: ('s, 'e, 'u) world) = Some v' \<and>
           heap w' a = heap v' a \<and> heap w' a \<noteq> None"
  using assms
proof (induction ops arbitrary: w v m)
  case Nil
  then show ?case by simp
next
  case (Cons p ops)
  obtain x xop where p: "p = (x, xop)" by (cases p)
  from Cons.prems(1) p obtain mx where mx: "heap w x = Some mx" "this_m mx = x" by auto
  from apply_op_self[OF mx(2), of c xop] obtain mx' cs where
    st: "this_m mx' = x"
        "\<And>u. heap u x = Some mx \<Longrightarrow>
           apply_op c xop x (u :: ('s, 'e, 'u) world) =
             Some (u\<lparr>heap := (heap u)(x \<mapsto> mx'), calls := calls u @ cs\<rparr>)"
    by blast
  let ?w1 = "w\<lparr>heap := (heap w)(x \<mapsto> mx'), calls := calls w @ cs\<rparr>"
  have w1: "apply_op c xop x w = Some ?w1" using st(2)[OF mx(1)] .
  have rest: "\<forall>y \<in> fst ` set ops. \<exists>my. heap ?w1 y = Some my \<and> this_m my = y"
    using Cons.prems(1) st(1) by auto
  show ?case
  proof (cases "x = a")
    case True
    with mx Cons.prems have mxm: "mx = m" by simp
    let ?v1 = "v\<lparr>heap := (heap v)(x \<mapsto> mx'), calls := calls v @ cs\<rparr>"
    have v1: "apply_op c xop x v = Some ?v1" using st(2)[of v] Cons.prems(3) True mxm by simp
    have "heap ?w1 a = Some mx'" "heap ?v1 a = Some mx'" "this_m mx' = a"
      using True st(1) by simp_all
    from Cons.IH[OF rest this] obtain w' v' where
      "drive c ops ?w1 = Some w'" "drive c (filter (\<lambda>p. fst p = a) ops) ?v1 = Some v'"
      "heap w' a = heap v' a" "heap w' a \<noteq> None" by blast
    then show ?thesis using w1 v1 True p by simp
  next
    case False
    have "heap ?w1 a = Some m" using False Cons.prems(2) by simp
    from Cons.IH[OF rest this Cons.prems(3,4)] obtain w' v' where
      "drive c ops ?w1 = Some w'" "drive c (filter (\<lambda>p. fst p = a) ops) v = Some v'"
      "heap w' a = heap v' a" "heap w' a \<noteq> None" by blast
    then show ?thesis using w1 False p by simp
  qed
qed

section \<open>The body of a reaction, run to its end\<close>

lemma body_result_this [simp]: "this_m (body_result c k m) = this_m m"
  by (induction k arbitrary: m) simp_all

lemma body_calls_no_react: "filter is_react_call (body_calls c k a m) = []"
  by (induction k arbitrary: m) simp_all

lemma run_body:
  assumes "heap w a = Some m" and "this_m m = a"
  shows "run c k a w =
           Some (w\<lparr>heap := (heap w)(a \<mapsto> body_result c k m),
                   calls := calls w @ body_calls c k a m\<rparr>)"
  using assms
proof (induction k arbitrary: w m)
  case Skip
  have "(heap w)(a \<mapsto> m) = heap w"
    using Skip.prems(1) by (rule map_upd_triv[of "heap w" a m])
  then show ?case by simp
next
  case (Do_assign body k)
  let ?m1 = "m\<lparr>child := body m\<rparr>"
  let ?w1 = "w\<lparr>heap := (heap w)(a \<mapsto> ?m1)\<rparr>"
  have 1: "heap ?w1 a = Some ?m1" "this_m ?m1 = a"
    using Do_assign.prems by simp_all
  have "run c (Do_assign body k) a w = run c k a ?w1"
    using Do_assign.prems(1) by (simp add: on_object_self)
  also have "\<dots> = Some (?w1\<lparr>heap := (heap ?w1)(a \<mapsto> body_result c k ?m1),
                           calls := calls ?w1 @ body_calls c k a ?m1\<rparr>)"
    by (rule Do_assign.IH[OF 1])
  also have "?w1\<lparr>heap := (heap ?w1)(a \<mapsto> body_result c k ?m1),
                 calls := calls ?w1 @ body_calls c k a ?m1\<rparr> =
             w\<lparr>heap := (heap w)(a \<mapsto> body_result c (Do_assign body k) m),
               calls := calls w @ body_calls c (Do_assign body k) a m\<rparr>"
    by simp
  finally show ?case .
next
  case (Do_transit T k)
  let ?m1 = "transit_object c T m"
  let ?cs = "[Call_exit (current_state_m m) a, Assign_current a (state_instance T),
              Call_entry (state_instance T) a]"
  let ?w1 = "w\<lparr>heap := (heap w)(a \<mapsto> ?m1), calls := calls w @ ?cs\<rparr>"
  have 1: "heap ?w1 a = Some ?m1" "this_m ?m1 = a"
    using Do_transit.prems by simp_all
  have "run c (Do_transit T k) a w = run c k a ?w1"
    using Do_transit.prems by (simp add: State_transit_def FSM_transit_self)
  also have "\<dots> = Some (?w1\<lparr>heap := (heap ?w1)(a \<mapsto> body_result c k ?m1),
                           calls := calls ?w1 @ body_calls c k a ?m1\<rparr>)"
    by (rule Do_transit.IH[OF 1])
  also have "?w1\<lparr>heap := (heap ?w1)(a \<mapsto> body_result c k ?m1),
                 calls := calls ?w1 @ body_calls c k a ?m1\<rparr> =
             w\<lparr>heap := (heap w)(a \<mapsto> body_result c (Do_transit T k) m),
               calls := calls w @ body_calls c (Do_transit T k) a m\<rparr>"
    by simp
  finally show ?case .
next
  case (Cond b k1 k2)
  show ?case
  proof (cases "b m")
    case True
    then show ?thesis using Cond.prems(1) Cond.IH(1)[OF Cond.prems] by simp
  next
    case False
    then show ?thesis using Cond.prems(1) Cond.IH(2)[OF Cond.prems] by simp
  qed
qed

lemma reset_object_started:
  assumes "this_m m = a" and "init_state_m m = s"
  shows "reset_object c m =
           FSM_ctor s a (state_entry c s (FSM_ctor s a (resetter c
             (FSM_ctor s a (state_exit c (current_state_m m) m)))))"
  using assms by (cases m) (simp add: reset_object_def Let_def FSM_ctor_def)

section \<open>Sequences of calls\<close>

lemma drive_append:
  "drive c (xs @ ys) w = do { w1 \<leftarrow> drive c xs w; drive c ys w1 }"
  by (induction xs arbitrary: w) (auto split: bind_splits)

lemma drive_single:
  assumes "heap w a = Some m" and "this_m m = a"
  shows "\<exists>w' m'. drive c (map (Pair a) ops) (w :: ('s, 'e, 'u) world) = Some w' \<and>
           heap w' a = Some m' \<and> this_m m' = a \<and> init_state_m m' = init_state_m m"
  using assms
proof (induction ops arbitrary: w m)
  case Nil
  then show ?case by simp
next
  case (Cons x ops)
  from apply_op_self[OF Cons.prems(2), of c x] Cons.prems(1) obtain m1 cs where
    st: "this_m m1 = a" "init_state_m m1 = init_state_m m"
        "apply_op c x a w = Some (w\<lparr>heap := (heap w)(a \<mapsto> m1), calls := calls w @ cs\<rparr>)"
    by blast
  let ?w1 = "w\<lparr>heap := (heap w)(a \<mapsto> m1), calls := calls w @ cs\<rparr>"
  have "heap ?w1 a = Some m1" by simp
  from Cons.IH[OF this st(1)] st show ?case by simp
qed

section \<open>The extended switch keeps its initial current\<close>

text \<open>The member \<^verbatim>\<open>initial_current_\<close> is constant: no call changes it.\<close>

lemmas xs_defs =
  extended_switch_def state_instance_def State_exit_def GenericState_entry_def
  OffState_entry_def setCurrent_def xs_FSM_resetter_def GenericState_react_def xs_FSM_ctor_def

lemmas engine_defs =
  start_def FSM_start_def FSM_ctor_def FSM_react_def FSM_reset_def FSM_transit_def
  State_transit_def FSM_is_in_state_def call_exit_def call_entry_def call_resetter_def
  assign_current_def on_object_def logged_def empty_world_def

lemma xs_apply_op_initial_current:
  assumes "heap w a = Some m" and "this_m m = a"
      and "apply_op extended_switch x a w = Some w'" and "heap w' a = Some m'"
  shows "initial_current_m (child m') = initial_current_m (child m)"
proof (cases x)
  case (React event)
  show ?thesis
  proof (cases "current_state_m m")
    case GenericState
    with assms React show ?thesis
      by (auto simp: FSM_react_def logged_def xs_defs)
  next
    case OnState
    with assms React show ?thesis
      by (cases event)
         (auto simp: FSM_react_def on_object_def logged_def State_transit_def FSM_transit_self
                     transit_object_def xs_defs)
  next
    case OffState
    with assms React show ?thesis
      by (cases event)
         (auto simp: FSM_react_def on_object_def logged_def State_transit_def FSM_transit_self
                     transit_object_def xs_defs)
  qed
next
  case (Transit T)
  with assms show ?thesis
    by (cases T) (auto simp: FSM_transit_self transit_object_def xs_defs)
next
  case Reset
  with assms show ?thesis
    by (cases "init_state_m m") (auto simp: FSM_reset_self reset_object_def Let_def xs_defs)
qed

lemma xs_drive_single:
  assumes "heap w a = Some m" and "this_m m = a"
  shows "\<exists>w' m'. drive extended_switch (map (Pair a) ops) w = Some w' \<and>
           heap w' a = Some m' \<and> this_m m' = a \<and> init_state_m m' = init_state_m m \<and>
           initial_current_m (child m') = initial_current_m (child m)"
  using assms
proof (induction ops arbitrary: w m)
  case Nil
  then show ?case by simp
next
  case (Cons x ops)
  from apply_op_self[OF Cons.prems(2), of extended_switch x] Cons.prems(1) obtain m1 cs where
    st: "this_m m1 = a" "init_state_m m1 = init_state_m m"
        "apply_op extended_switch x a w = Some (w\<lparr>heap := (heap w)(a \<mapsto> m1), calls := calls w @ cs\<rparr>)"
    by blast
  let ?w1 = "w\<lparr>heap := (heap w)(a \<mapsto> m1), calls := calls w @ cs\<rparr>"
  have h: "heap ?w1 a = Some m1" by simp
  from xs_apply_op_initial_current[OF Cons.prems st(3) h]
  have ic: "initial_current_m (child m1) = initial_current_m (child m)" .
  from Cons.IH[OF h st(1)] st ic show ?case by simp
qed

section \<open>An object that points to another one\<close>

text \<open>
  An object whose \<^verbatim>\<open>this_\<close> points to another object, as a member-wise copy of an FSM has
  it, drives that other object: the lemmas above need their hypothesis on \<^verbatim>\<open>this_\<close>.
\<close>

lemma aliased_this_interferes:
  "FSM_react multiple_instances MI_OnEvent 2
     \<lparr>heap = [1 \<mapsto> FSM_ctor MI_OffState 1 (), 2 \<mapsto> (FSM_ctor MI_OffState 1 ())], calls = []\<rparr> =
   Some \<lparr>heap = [1 \<mapsto> (FSM_ctor MI_OffState 1 ())\<lparr>current_state_m := MI_OnState\<rparr>,
                 2 \<mapsto> FSM_ctor MI_OffState 1 ()],
         calls = [Call_react MI_OffState MI_OnEvent 1, Call_exit MI_OffState 1,
                  Assign_current 1 MI_OnState, Call_entry MI_OnState 1]\<rparr>"
  by (simp add: FSM_react_def multiple_instances_def FSM_ctor_def logged_def State_transit_def
        FSM_transit_def call_exit_def call_entry_def assign_current_def on_object_def
        State_exit_def State_entry_def state_instance_def fun_upd_twist)

section \<open>The claims\<close>

text \<open>
  C1. On an FSM object whose \<^verbatim>\<open>this_\<close> points to itself, as \<^verbatim>\<open>start\<close> builds it, and for
  every target state type \<open>T\<close>, \<^verbatim>\<open>transit<T>()\<close> returns, and what it did is exactly:
  a call of \<^verbatim>\<open>exit\<close> on the state that was current, then the assignment of the instance
  of \<open>T\<close> to \<^verbatim>\<open>current_state_\<close>, then a call of \<^verbatim>\<open>entry\<close> on that instance, and no other
  call. The body of \<^verbatim>\<open>exit\<close> runs on the object as it was, the body of \<^verbatim>\<open>entry\<close> on the
  object that \<^verbatim>\<open>exit\<close> left with the new current state. Nothing is asked of \<open>T\<close>: when
  it is the type of the current state, \<^verbatim>\<open>exit\<close> and then \<^verbatim>\<open>entry\<close> are called on that
  same instance.
\<close>

theorem transit_exit_assign_entry:
  assumes "heap w a = Some m" and "this_m m = a"
  shows "FSM_transit c T a w =
           Some (w\<lparr>heap := (heap w)(a \<mapsto>
                     m\<lparr>current_state_m := state_instance T,
                       child := state_entry c (state_instance T)
                                  (m\<lparr>child := state_exit c (current_state_m m) m,
                                     current_state_m := state_instance T\<rparr>)\<rparr>),
                   calls := calls w @ [Call_exit (current_state_m m) a,
                                       Assign_current a (state_instance T),
                                       Call_entry (state_instance T) a]\<rparr>)
         \<and> (current_state_m m = state_instance T \<longrightarrow>
              (\<exists>w'. FSM_transit c T a w = Some w' \<and>
                    calls w' = calls w @ [Call_exit (state_instance T) a,
                                          Assign_current a (state_instance T),
                                          Call_entry (state_instance T) a]))"
  using assms by (simp add: FSM_transit_self transit_object_def)

theorem transit_exit_assign_entry_witness:
  "heap (start extended_switch OffState 10 4 empty_world) 4 = Some (FSM_ctor OffState 4 (xs_FSM_ctor 10))
   \<and> this_m (FSM_ctor OffState 4 (xs_FSM_ctor 10)) = 4
   \<and> current_state_m (FSM_ctor OffState 4 (xs_FSM_ctor 10)) = state_instance OffState
   \<and> FSM_transit extended_switch OffState 4 (start extended_switch OffState 10 4 empty_world) =
       Some \<lparr>heap = [4 \<mapsto> \<lparr>this_m = 4, init_state_m = OffState, current_state_m = OffState,
                             child = \<lparr>initial_current_m = 10, current_m = 0\<rparr>\<rparr>],
             calls = [Call_exit OffState 4, Assign_current 4 OffState, Call_entry OffState 4]\<rparr>"
proof -
  have h1: "heap (start extended_switch OffState 10 4 empty_world) 4 = Some (FSM_ctor OffState 4 (xs_FSM_ctor 10))"
    by (simp add: start_def FSM_start_def state_instance_def extended_switch_def)
  have h2: "this_m (FSM_ctor OffState 4 (xs_FSM_ctor 10)) = 4"
    by (simp add: FSM_ctor_def)
  from transit_exit_assign_entry[OF h1 h2, of extended_switch OffState] h1 h2 show ?thesis
    by (simp add: start_def FSM_start_def state_instance_def extended_switch_def FSM_ctor_def
          xs_FSM_ctor_def empty_world_def State_exit_def OffState_entry_def setCurrent_def)
qed

text \<open>
  C2. On an FSM object whose \<^verbatim>\<open>this_\<close> points to itself, \<^verbatim>\<open>reset()\<close> returns, and what it
  did is exactly: a call of \<^verbatim>\<open>exit\<close> on the state that was current, the assignment of
  \<^verbatim>\<open>init_state_\<close> to \<^verbatim>\<open>current_state_\<close>, a call of the hook \<^verbatim>\<open>resetter\<close>, and only then
  a call of \<^verbatim>\<open>entry\<close> on the initial state. The hook runs on the object that already has
  the initial state as its current state, \<^verbatim>\<open>entry\<close> on the object the hook left. The hook
  of the library itself changes nothing.
\<close>

theorem reset_exit_assign_hook_entry:
  assumes "heap w a = Some m" and "this_m m = a"
  shows "FSM_reset c a w =
           Some (let m1 = m\<lparr>child := state_exit c (current_state_m m) m\<rparr>;
                     m2 = m1\<lparr>current_state_m := init_state_m m\<rparr>;
                     m3 = m2\<lparr>child := resetter c m2\<rparr>;
                     m4 = m3\<lparr>child := state_entry c (init_state_m m) m3\<rparr>
                 in w\<lparr>heap := (heap w)(a \<mapsto> m4),
                       calls := calls w @ [Call_exit (current_state_m m) a,
                                           Assign_current a (init_state_m m),
                                           Call_resetter a,
                                           Call_entry (init_state_m m) a]\<rparr>)
         \<and> FSM_resetter m = child m"
  using assms by (simp add: FSM_reset_self reset_object_def Let_def FSM_resetter_def)

theorem reset_exit_assign_hook_entry_witness:
  "heap \<lparr>heap = [7 \<mapsto> \<lparr>this_m = 7, init_state_m = OffState, current_state_m = OnState,
                          child = \<lparr>initial_current_m = 10, current_m = 20\<rparr>\<rparr>],
          calls = [] :: (xs_state, xs_event) call list\<rparr> 7 =
     Some \<lparr>this_m = 7, init_state_m = OffState, current_state_m = OnState,
           child = \<lparr>initial_current_m = 10, current_m = 20\<rparr>\<rparr>
   \<and> this_m \<lparr>this_m = 7, init_state_m = OffState, current_state_m = OnState,
              child = \<lparr>initial_current_m = 10, current_m = 20 :: real\<rparr>\<rparr> = 7
   \<and> FSM_reset extended_switch 7
        \<lparr>heap = [7 \<mapsto> \<lparr>this_m = 7, init_state_m = OffState, current_state_m = OnState,
                          child = \<lparr>initial_current_m = 10, current_m = 20\<rparr>\<rparr>],
          calls = []\<rparr> =
       Some \<lparr>heap = [7 \<mapsto> \<lparr>this_m = 7, init_state_m = OffState, current_state_m = OffState,
                             child = \<lparr>initial_current_m = 10, current_m = 0\<rparr>\<rparr>],
             calls = [Call_exit OnState 7, Assign_current 7 OffState, Call_resetter 7,
                      Call_entry OffState 7]\<rparr>"
proof -
  let ?m = "\<lparr>this_m = 7, init_state_m = OffState, current_state_m = OnState,
             child = \<lparr>initial_current_m = 10, current_m = 20 :: real\<rparr>\<rparr>"
  let ?w = "\<lparr>heap = [7 \<mapsto> ?m], calls = [] :: (xs_state, xs_event) call list\<rparr>"
  have h1: "heap ?w 7 = Some ?m" by simp
  have h2: "this_m ?m = 7" by simp
  from reset_exit_assign_hook_entry[OF h1 h2, of extended_switch] show ?thesis
    by (simp add: extended_switch_def Let_def State_exit_def OffState_entry_def setCurrent_def
          xs_FSM_resetter_def)
qed

text \<open>
  C3, as amended. For every consumer, an instance built by \<^verbatim>\<open>start\<close> and driven by any
  sequence of \<^verbatim>\<open>react\<close>, \<^verbatim>\<open>transit\<close> and \<^verbatim>\<open>reset\<close> calls is in its initial state
  after a further \<^verbatim>\<open>reset\<close>, and its own members are then what the entry of the initial
  state leaves after the hook has run on what the exit of the previous state left. They
  are the members as constructed whenever the hook restores those on that object and the
  entry of the initial state leaves them as constructed: the object is then equal to the
  freshly constructed one. In the extended switch every such \<^verbatim>\<open>reset\<close> leaves the same
  object, the freshly constructed one after the entry of its initial state has run on it;
  started in any state but \<^verbatim>\<open>OffState\<close>, that is the freshly constructed object itself.
\<close>

theorem reset_reaches_initial_state:
  "(\<exists>w1 m1 w'.
        drive c (map (Pair a) ops) (start c T args a w) = Some w1
      \<and> heap w1 a = Some m1
      \<and> drive c (map (Pair a) ops @ [(a, Reset)]) (start c T args a w) = Some w'
      \<and> FSM_is_in_state T a w' = Some True
      \<and> heap w' a =
          Some (FSM_ctor (state_instance T) a
                 (state_entry c (state_instance T)
                   (FSM_ctor (state_instance T) a
                     (resetter c
                       (FSM_ctor (state_instance T) a (state_exit c (current_state_m m1) m1))))))
      \<and> (resetter c (FSM_ctor (state_instance T) a (state_exit c (current_state_m m1) m1))
            = ctor c args
          \<and> state_entry c (state_instance T) (FSM_ctor (state_instance T) a (ctor c args))
            = ctor c args
          \<longrightarrow> heap w' a = heap (start c T args a w) a))
   \<and> (\<exists>w'. drive extended_switch (map (Pair b) xops @ [(b, Reset)])
              (start extended_switch Tx current b xw) = Some w'
          \<and> FSM_is_in_state Tx b w' = Some True
          \<and> heap w' b =
              Some (FSM_ctor Tx b (xs_entry Tx (FSM_ctor Tx b (xs_FSM_ctor current))))
          \<and> (Tx \<noteq> OffState \<longrightarrow> heap w' b = heap (start extended_switch Tx current b xw) b))"
proof (intro conjI)
  let ?s = "state_instance T"
  let ?w0 = "start c T args a w"
  let ?m0 = "FSM_ctor ?s a (ctor c args)"
  have h: "heap ?w0 a = Some ?m0" "this_m ?m0 = a"
    by (simp_all add: start_def FSM_start_def FSM_ctor_def)
  from drive_single[OF h, of c ops] obtain w1 m1 where
    1: "drive c (map (Pair a) ops) ?w0 = Some w1"
       "heap w1 a = Some m1" "this_m m1 = a" "init_state_m m1 = init_state_m ?m0"
    by blast
  have i: "init_state_m m1 = ?s" using 1(4) by (simp add: FSM_ctor_def)
  let ?m' = "FSM_ctor ?s a (state_entry c ?s (FSM_ctor ?s a (resetter c
               (FSM_ctor ?s a (state_exit c (current_state_m m1) m1)))))"
  let ?w' = "w1\<lparr>heap := (heap w1)(a \<mapsto> ?m'),
                 calls := calls w1 @ [Call_exit (current_state_m m1) a,
                                      Assign_current a (init_state_m m1),
                                      Call_resetter a,
                                      Call_entry (init_state_m m1) a]\<rparr>"
  have r: "FSM_reset c a w1 = Some ?w'"
    using FSM_reset_self[OF 1(2,3), of c] reset_object_started[OF 1(3) i, of c] by simp
  have d: "drive c (map (Pair a) ops @ [(a, Reset)]) ?w0 = Some ?w'"
    using 1(1) r by (simp add: drive_append)
  have s: "FSM_is_in_state T a ?w' = Some True"
    by (simp add: FSM_is_in_state_def FSM_ctor_def)
  have v: "heap ?w' a = Some ?m'" by simp
  have f: "resetter c (FSM_ctor ?s a (state_exit c (current_state_m m1) m1)) = ctor c args
           \<and> state_entry c ?s (FSM_ctor ?s a (ctor c args)) = ctor c args
           \<longrightarrow> heap ?w' a = heap ?w0 a"
    using h(1) by simp
  from 1(1,2) d s v f
  show "\<exists>w1 m1 w'.
        drive c (map (Pair a) ops) ?w0 = Some w1
      \<and> heap w1 a = Some m1
      \<and> drive c (map (Pair a) ops @ [(a, Reset)]) ?w0 = Some w'
      \<and> FSM_is_in_state T a w' = Some True
      \<and> heap w' a =
          Some (FSM_ctor ?s a (state_entry c ?s (FSM_ctor ?s a
                 (resetter c (FSM_ctor ?s a (state_exit c (current_state_m m1) m1))))))
      \<and> (resetter c (FSM_ctor ?s a (state_exit c (current_state_m m1) m1)) = ctor c args
          \<and> state_entry c ?s (FSM_ctor ?s a (ctor c args)) = ctor c args
          \<longrightarrow> heap w' a = heap ?w0 a)"
    by blast
next
  let ?w0 = "start extended_switch Tx current b xw"
  let ?m0 = "FSM_ctor (state_instance Tx) b (ctor extended_switch current)"
  have h: "heap ?w0 b = Some ?m0" "this_m ?m0 = b"
    by (simp_all add: start_def FSM_start_def FSM_ctor_def)
  from xs_drive_single[OF h, of xops] obtain w1 m1 where
    1: "drive extended_switch (map (Pair b) xops) ?w0 = Some w1"
       "heap w1 b = Some m1" "this_m m1 = b" "init_state_m m1 = init_state_m ?m0"
       "initial_current_m (child m1) = initial_current_m (child ?m0)"
    by blast
  have m1: "init_state_m m1 = Tx" "initial_current_m (child m1) = current"
    using 1(4,5) by (simp_all add: FSM_ctor_def xs_defs)
  have r: "reset_object extended_switch m1 =
             FSM_ctor Tx b (xs_entry Tx (FSM_ctor Tx b (xs_FSM_ctor current)))"
    using m1 1(3) by (cases Tx; cases m1) (simp_all add: reset_object_def Let_def FSM_ctor_def xs_defs)
  have f: "Tx \<noteq> OffState \<longrightarrow>
             FSM_ctor Tx b (xs_entry Tx (FSM_ctor Tx b (xs_FSM_ctor current))) = ?m0"
    by (cases Tx) (simp_all add: FSM_ctor_def xs_defs)
  show "\<exists>w'. drive extended_switch (map (Pair b) xops @ [(b, Reset)]) ?w0 = Some w'
            \<and> FSM_is_in_state Tx b w' = Some True
            \<and> heap w' b = Some (FSM_ctor Tx b (xs_entry Tx (FSM_ctor Tx b (xs_FSM_ctor current))))
            \<and> (Tx \<noteq> OffState \<longrightarrow> heap w' b = heap ?w0 b)"
    using 1 h r f by (simp add: drive_append FSM_reset_self FSM_is_in_state_def m1) (simp add: FSM_ctor_def state_instance_def)
qed

theorem reset_reaches_initial_state_witness:
  "OnState \<noteq> OffState
   \<and> (\<exists>w1 m1 w'.
         drive extended_switch
           (map (Pair 0) [React OffEvent, Reset, React (OnEvent 20), Transit OffState])
           (start extended_switch OnState 10 0 empty_world) = Some w1
       \<and> heap w1 0 = Some m1
       \<and> resetter extended_switch
            (FSM_ctor (state_instance OnState) 0
               (state_exit extended_switch (current_state_m m1) m1)) = ctor extended_switch 10
       \<and> state_entry extended_switch (state_instance OnState)
            (FSM_ctor (state_instance OnState) 0 (ctor extended_switch 10)) = ctor extended_switch 10
       \<and> drive extended_switch
           (map (Pair 0) [React OffEvent, Reset, React (OnEvent 20), Transit OffState] @ [(0, Reset)])
           (start extended_switch OnState 10 0 empty_world) = Some w'
       \<and> FSM_is_in_state OnState 0 w' = Some True
       \<and> heap w' 0 = heap (start extended_switch OnState 10 0 empty_world) 0)"
proof -
  let ?ops = "[React OffEvent, Reset, React (OnEvent 20), Transit OffState]"
  let ?w0 = "start extended_switch OnState 10 0 empty_world"
  let ?m0 = "FSM_ctor (state_instance OnState) 0 (ctor extended_switch 10)"
  from reset_reaches_initial_state
         [where c = extended_switch and a = 0 and T = OnState and args = 10 and w = empty_world
            and ops = ?ops and Tx = OnState and b = 0 and current = 10 and xw = empty_world
            and xops = ?ops]
  obtain w1 m1 w' where
    t: "drive extended_switch (map (Pair 0) ?ops) ?w0 = Some w1" "heap w1 0 = Some m1"
       "drive extended_switch (map (Pair 0) ?ops @ [(0, Reset)]) ?w0 = Some w'"
       "FSM_is_in_state OnState 0 w' = Some True"
       "resetter extended_switch
          (FSM_ctor (state_instance OnState) 0 (state_exit extended_switch (current_state_m m1) m1))
            = ctor extended_switch 10
        \<and> state_entry extended_switch (state_instance OnState) ?m0 = ctor extended_switch 10
        \<longrightarrow> heap w' 0 = heap ?w0 0"
    by blast
  have h: "heap ?w0 0 = Some ?m0" "this_m ?m0 = 0"
    by (simp_all add: start_def FSM_start_def FSM_ctor_def)
  from xs_drive_single[OF h, of ?ops] t(1,2)
  have ic: "initial_current_m (child m1) = 10"
    by (auto simp: FSM_ctor_def xs_defs)
  have p1: "resetter extended_switch
              (FSM_ctor (state_instance OnState) 0 (state_exit extended_switch (current_state_m m1) m1))
            = ctor extended_switch 10"
    using ic by (simp add: FSM_ctor_def xs_defs)
  have p2: "state_entry extended_switch (state_instance OnState) ?m0 = ctor extended_switch 10"
    by (simp add: FSM_ctor_def xs_defs)
  from t(5) p1 p2 have "heap w' 0 = heap ?w0 0" by blast
  with t(1-4) p1 p2 show ?thesis by blast
qed

text \<open>
  The claim C3 as written fails: in the extended switch started in \<^verbatim>\<open>OffState\<close> with
  current 10, \<^verbatim>\<open>reset\<close> ends in the initial state with current 0, since the entry of
  \<^verbatim>\<open>OffState\<close> runs after the hook.
\<close>

theorem reset_keeps_entry_value:
  "FSM_reset extended_switch 0 (start extended_switch OffState 10 0 empty_world) =
     Some \<lparr>heap = [0 \<mapsto> \<lparr>this_m = 0, init_state_m = OffState, current_state_m = OffState,
                           child = \<lparr>initial_current_m = 10, current_m = 0\<rparr>\<rparr>],
           calls = [Call_exit OffState 0, Assign_current 0 OffState, Call_resetter 0,
                    Call_entry OffState 0]\<rparr>
   \<and> heap (start extended_switch OffState 10 0 empty_world) 0 =
       Some \<lparr>this_m = 0, init_state_m = OffState, current_state_m = OffState,
             child = \<lparr>initial_current_m = 10, current_m = 10\<rparr>\<rparr>
   \<and> \<lparr>initial_current_m = 10, current_m = 0\<rparr> \<noteq> ctor extended_switch 10"
  by (simp add: engine_defs xs_defs)

text \<open>
  C4. \<^verbatim>\<open>start\<close> builds an object whose initial and current state are both the instance of
  the initial state type and whose own members are what the constructor makes of the
  arguments; it adds nothing to the log of calls, so that after a bootstrap from the
  empty world no \<^verbatim>\<open>entry\<close> or \<^verbatim>\<open>exit\<close> has run; and \<^verbatim>\<open>is_in_state\<close> of the initial
  state type is true.
\<close>

theorem start_fires_nothing:
  "heap (start c T args a w) a =
     Some \<lparr>this_m = a, init_state_m = state_instance T, current_state_m = state_instance T,
           child = ctor c args\<rparr>
   \<and> calls (start c T args a w) = calls w
   \<and> calls (start c T args a (empty_world :: ('s, 'e, 'u) world)) = []
   \<and> FSM_is_in_state T a (start c T args a w) = Some True"
  by (simp add: start_def FSM_start_def FSM_ctor_def FSM_is_in_state_def empty_world_def)

text \<open>
  C5. \<^verbatim>\<open>is_in_state<T>()\<close> is true exactly when \<^verbatim>\<open>current_state_\<close> is the instance of \<open>T\<close>,
  and false exactly when it is another one; it returns a truth value only and no changed
  world. For two distinct state types it is never true of both.
\<close>

theorem is_in_state_identity:
  "(FSM_is_in_state T a w = Some True) =
     (\<exists>fsm. heap w a = Some fsm \<and> current_state_m fsm = state_instance T)
   \<and> (FSM_is_in_state T a w = Some False) =
     (\<exists>fsm. heap w a = Some fsm \<and> current_state_m fsm \<noteq> state_instance T)
   \<and> (T \<noteq> T' \<longrightarrow>
        \<not> (FSM_is_in_state T a w = Some True \<and> FSM_is_in_state T' a w = Some True))"
  by (cases "heap w a") (auto simp: FSM_is_in_state_def state_instance_def)

theorem is_in_state_identity_witness:
  "OnState \<noteq> OffState
   \<and> FSM_is_in_state OnState 0 (start extended_switch OnState 10 0 empty_world) = Some True
   \<and> \<not> (FSM_is_in_state OnState 0 (start extended_switch OnState 10 0 empty_world) = Some True
         \<and> FSM_is_in_state OffState 0 (start extended_switch OnState 10 0 empty_world) = Some True)"
  using is_in_state_identity[of OnState 0 "start extended_switch OnState 10 0 empty_world" OffState]
  by (simp add: start_def FSM_start_def FSM_ctor_def FSM_is_in_state_def state_instance_def)

text \<open>
  C6. On an FSM object whose \<^verbatim>\<open>this_\<close> points to itself, \<^verbatim>\<open>react(event)\<close> returns, and it
  has run the body that the current state has for this event to its end on the object:
  the object is what that body makes of it, statement by statement, and the log grows by
  one call of \<^verbatim>\<open>react\<close>, on the current state with this event, followed by the calls
  the body caused, none of which is a call of \<^verbatim>\<open>react\<close>. When that body is empty, as the
  default of \<^verbatim>\<open>State\<close> and of the generic states of the tests is, the call is logged
  and nothing else happens.
\<close>

theorem react_one_reaction:
  assumes "heap w a = Some m" and "this_m m = a"
  shows "FSM_react c event a w =
           Some (w\<lparr>heap := (heap w)(a \<mapsto> body_result c (state_react c (current_state_m m) event) m),
                   calls := calls w @ Call_react (current_state_m m) event a
                              # body_calls c (state_react c (current_state_m m) event) a m\<rparr>)
         \<and> FSM_react c event a w =
             run c (state_react c (current_state_m m) event) a
               (logged (Call_react (current_state_m m) event a) w)
         \<and> filter is_react_call (body_calls c (state_react c (current_state_m m) event) a m) = []
         \<and> (state_react c (current_state_m m) event = Skip \<longrightarrow>
              FSM_react c event a w = Some (logged (Call_react (current_state_m m) event a) w))"
proof -
  let ?k = "state_react c (current_state_m m) event"
  let ?w1 = "logged (Call_react (current_state_m m) event a) w"
  have 1: "heap ?w1 a = Some m" using assms(1) by (simp add: logged_def)
  have eq: "FSM_react c event a w = run c ?k a ?w1"
    using assms by (simp add: FSM_react_def)
  have "?w1\<lparr>heap := (heap ?w1)(a \<mapsto> body_result c ?k m),
            calls := calls ?w1 @ body_calls c ?k a m\<rparr> =
        w\<lparr>heap := (heap w)(a \<mapsto> body_result c ?k m),
          calls := calls w @ Call_react (current_state_m m) event a # body_calls c ?k a m\<rparr>"
    by (simp add: logged_def)
  with run_body[OF 1 assms(2), of c ?k] eq
  have res: "FSM_react c event a w =
               Some (w\<lparr>heap := (heap w)(a \<mapsto> body_result c ?k m),
                       calls := calls w @ Call_react (current_state_m m) event a
                                  # body_calls c ?k a m\<rparr>)"
    by simp
  have skip: "?k = Skip \<longrightarrow> FSM_react c event a w = Some ?w1"
    using eq by simp
  show ?thesis
    by (intro conjI) (rule res, rule eq, rule body_calls_no_react, rule skip)
qed

theorem react_one_reaction_witness:
  "heap (start extended_switch OffState 10 5 empty_world) 5 = Some (FSM_ctor OffState 5 (xs_FSM_ctor 10))
   \<and> this_m (FSM_ctor OffState 5 (xs_FSM_ctor 10)) = 5
   \<and> FSM_react extended_switch (OnEvent 20) 5 (start extended_switch OffState 10 5 empty_world) =
       Some \<lparr>heap = [5 \<mapsto> \<lparr>this_m = 5, init_state_m = OffState, current_state_m = OnState,
                             child = \<lparr>initial_current_m = 10, current_m = 20\<rparr>\<rparr>],
             calls = [Call_react OffState (OnEvent 20) 5, Call_exit OffState 5,
                      Assign_current 5 OnState, Call_entry OnState 5]\<rparr>
   \<and> state_react extended_switch (current_state_m (FSM_ctor OffState 5 (xs_FSM_ctor 10))) OffEvent = Skip
   \<and> FSM_react extended_switch OffEvent 5 (start extended_switch OffState 10 5 empty_world) =
       Some \<lparr>heap = [5 \<mapsto> FSM_ctor OffState 5 (xs_FSM_ctor 10)],
             calls = [Call_react OffState OffEvent 5]\<rparr>"
proof -
  have h1: "heap (start extended_switch OffState 10 5 empty_world) 5 =
              Some (FSM_ctor OffState 5 (xs_FSM_ctor 10))"
    by (simp add: start_def FSM_start_def state_instance_def extended_switch_def)
  have h2: "this_m (FSM_ctor OffState 5 (xs_FSM_ctor 10)) = 5"
    by (simp add: FSM_ctor_def)
  have h3: "state_react extended_switch (current_state_m (FSM_ctor OffState 5 (xs_FSM_ctor 10))) OffEvent = Skip"
    by (simp add: extended_switch_def FSM_ctor_def GenericState_react_def)
  from react_one_reaction[OF h1 h2, of extended_switch "OnEvent 20"]
       react_one_reaction[OF h1 h2, of extended_switch OffEvent] h1 h2 h3
  show ?thesis
    by (simp add: start_def FSM_start_def FSM_ctor_def empty_world_def logged_def
          transit_object_def xs_defs)
qed

text \<open>
  C7. Two instances built by \<^verbatim>\<open>start\<close> at distinct addresses \<open>a\<close> and \<open>b\<close>, for any
  initial states and arguments, and any sequence of \<^verbatim>\<open>react\<close>, \<^verbatim>\<open>transit\<close> and \<^verbatim>\<open>reset\<close>
  calls on the one or the other: the sequence runs to its end, and each object ends as it
  does when it is built alone and receives only its own calls, in the same order.
\<close>

theorem instances_isolated:
  assumes "a \<noteq> b" and "fst ` set ops \<subseteq> {a, b}"
  shows "\<exists>w' wa wb.
           drive c ops (start c Tb argsb b (start c Ta argsa a w)) = Some w'
         \<and> drive c (filter (\<lambda>p. fst p = a) ops) (start c Ta argsa a w) = Some wa
         \<and> drive c (filter (\<lambda>p. fst p = b) ops) (start c Tb argsb b w) = Some wb
         \<and> heap w' a = heap wa a \<and> heap w' b = heap wb b"
proof -
  let ?ma = "FSM_ctor (state_instance Ta) a (ctor c argsa)"
  let ?mb = "FSM_ctor (state_instance Tb) b (ctor c argsb)"
  let ?w = "start c Tb argsb b (start c Ta argsa a w)"
  have ha: "heap ?w a = Some ?ma" and hb: "heap ?w b = Some ?mb"
    using assms(1) by (simp_all add: start_def FSM_start_def)
  have sa: "this_m ?ma = a" and sb: "this_m ?mb = b" by (simp_all add: FSM_ctor_def)
  have all: "\<forall>x \<in> fst ` set ops. \<exists>mx. heap ?w x = Some mx \<and> this_m mx = x"
    using assms(2) ha hb sa sb by blast
  have va: "heap (start c Ta argsa a w) a = Some ?ma" and vb: "heap (start c Tb argsb b w) b = Some ?mb"
    by (simp_all add: start_def FSM_start_def)
  from drive_isolated[OF all ha va sa, of c] obtain w' wa where
    1: "drive c ops ?w = Some w'" "drive c (filter (\<lambda>p. fst p = a) ops) (start c Ta argsa a w) = Some wa"
       "heap w' a = heap wa a" by blast
  from drive_isolated[OF all hb vb sb, of c] 1(1) obtain wb where
    2: "drive c (filter (\<lambda>p. fst p = b) ops) (start c Tb argsb b w) = Some wb"
       "heap w' b = heap wb b" by auto
  from 1 2 show ?thesis by blast
qed

theorem instances_isolated_witness:
  "(1::nat) \<noteq> 2
   \<and> fst ` set [(1::nat, React MI_OnEvent), (2, React MI_OffEvent), (1, Reset), (2, Reset),
                 (2, React MI_OffEvent), (1, React MI_OnEvent)] \<subseteq> {1, 2}
   \<and> (\<exists>w' wa wb.
         drive multiple_instances
           [(1, React MI_OnEvent), (2, React MI_OffEvent), (1, Reset), (2, Reset),
            (2, React MI_OffEvent), (1, React MI_OnEvent)]
           (start multiple_instances MI_OnState () 2
             (start multiple_instances MI_OffState () 1 empty_world)) = Some w'
       \<and> drive multiple_instances [(1, React MI_OnEvent), (1, Reset), (1, React MI_OnEvent)]
           (start multiple_instances MI_OffState () 1 empty_world) = Some wa
       \<and> drive multiple_instances [(2, React MI_OffEvent), (2, Reset), (2, React MI_OffEvent)]
           (start multiple_instances MI_OnState () 2 empty_world) = Some wb
       \<and> heap w' 1 = heap wa 1 \<and> heap w' 2 = heap wb 2)"
proof -
  have h1: "(1::nat) \<noteq> 2" by simp
  have h2: "fst ` set [(1::nat, React MI_OnEvent), (2, React MI_OffEvent), (1, Reset :: (mi_state, mi_event) op), (2, Reset),
                 (2, React MI_OffEvent), (1, React MI_OnEvent)] \<subseteq> {1, 2}" by simp
  from instances_isolated[OF h1 h2, of multiple_instances MI_OnState "()" MI_OffState "()" empty_world]
  show ?thesis by simp
qed

text \<open>
  C8. The run of \<^verbatim>\<open>tests/extended_switch.cpp\<close>: started in \<^verbatim>\<open>OnState\<close> with current 10;
  \<^verbatim>\<open>react(OffEvent())\<close> leaves \<^verbatim>\<open>OffState\<close> and current 0; \<^verbatim>\<open>reset()\<close> leaves \<^verbatim>\<open>OnState\<close>
  and current 10; \<^verbatim>\<open>react(OnEvent(20))\<close> leaves \<^verbatim>\<open>OnState\<close> and current 20, and logs the
  call of \<^verbatim>\<open>react\<close> alone: no \<^verbatim>\<open>exit\<close>, assignment or \<^verbatim>\<open>entry\<close>.
\<close>

theorem extended_switch_scenario:
  "FSM_is_in_state OnState a (start extended_switch OnState 10 a empty_world) = Some True
   \<and> map_option getCurrent (heap (start extended_switch OnState 10 a empty_world) a) = Some 10
   \<and> (\<exists>w1 w2 w3.
         FSM_react extended_switch OffEvent a (start extended_switch OnState 10 a empty_world) = Some w1
       \<and> FSM_is_in_state OffState a w1 = Some True
       \<and> map_option getCurrent (heap w1 a) = Some 0
       \<and> calls w1 = [Call_react OnState OffEvent a, Call_exit OnState a,
                      Assign_current a OffState, Call_entry OffState a]
       \<and> FSM_reset extended_switch a w1 = Some w2
       \<and> FSM_is_in_state OnState a w2 = Some True
       \<and> map_option getCurrent (heap w2 a) = Some 10
       \<and> calls w2 = calls w1 @ [Call_exit OffState a, Assign_current a OnState,
                                 Call_resetter a, Call_entry OnState a]
       \<and> FSM_react extended_switch (OnEvent 20) a w2 = Some w3
       \<and> FSM_is_in_state OnState a w3 = Some True
       \<and> map_option getCurrent (heap w3 a) = Some 20
       \<and> calls w3 = calls w2 @ [Call_react OnState (OnEvent 20) a])"
  by (simp add: engine_defs xs_defs getCurrent_def)

text \<open>
  C9. On an FSM object whose \<^verbatim>\<open>this_\<close> points to itself, whatever its current state,
  \<^verbatim>\<open>transit<T>()\<close> returns and \<^verbatim>\<open>is_in_state<T>()\<close> is true afterwards.
\<close>

theorem transit_then_in_state:
  assumes "heap w a = Some m" and "this_m m = a"
  shows "\<exists>w'. FSM_transit c T a w = Some w' \<and> FSM_is_in_state T a w' = Some True"
  using assms by (simp add: FSM_transit_self FSM_is_in_state_def)

theorem transit_then_in_state_witness:
  "heap (start multiple_instances MI_OffState () 3 empty_world) 3 =
     Some (FSM_ctor MI_OffState 3 ())
   \<and> this_m (FSM_ctor MI_OffState 3 ()) = 3
   \<and> (\<exists>w'. FSM_transit multiple_instances MI_OnState 3
               (start multiple_instances MI_OffState () 3 empty_world) = Some w'
           \<and> FSM_is_in_state MI_OnState 3 w' = Some True
           \<and> FSM_is_in_state MI_OffState 3 w' = Some False)"
proof -
  have h1: "heap (start multiple_instances MI_OffState () 3 empty_world) 3 =
              Some (FSM_ctor MI_OffState 3 ())"
    by (simp add: start_def FSM_start_def state_instance_def)
  have h2: "this_m (FSM_ctor MI_OffState 3 ()) = 3" by (simp add: FSM_ctor_def)
  from transit_then_in_state[OF h1 h2, of multiple_instances MI_OnState] obtain w' where
    w': "FSM_transit multiple_instances MI_OnState 3
           (start multiple_instances MI_OffState () 3 empty_world) = Some w'"
        "FSM_is_in_state MI_OnState 3 w' = Some True" by blast
  from w'(2) have "FSM_is_in_state MI_OffState 3 w' = Some False"
    by (auto simp: FSM_is_in_state_def state_instance_def split: option.splits bind_splits)
  with h1 h2 w' show ?thesis by blast
qed

text \<open>
  C10. The free function \<^verbatim>\<open>start<T_FSM, T_State_Init>(args...)\<close> gives what the member
  \<^verbatim>\<open>T_FSM::start<T_State_Init>(args...)\<close> gives: the object that the constructor builds
  from the instance of the initial state type and the arguments as they were passed.
\<close>

theorem start_is_member_start:
  "start c T_State_Init args a w = FSM_start c T_State_Init args a w
   \<and> heap (start c T_State_Init args a w) a =
       Some (FSM_ctor (state_instance T_State_Init) a (ctor c args))"
  by (simp add: start_def FSM_start_def)

end
